theory Spec2Isabelle
  imports Main
begin

section \<open>Python values, exceptions and observable events\<close>

text \<open>
  The exceptions that the code under \<^verbatim>\<open>backend/core/doorController.py\<close> tells apart:
  \<^verbatim>\<open>PermissionError\<close> has a handler of its own in \<^verbatim>\<open>_set_led\<close>, every other subclass
  of \<^verbatim>\<open>Exception\<close> falls into the second handler, and an exception that is no
  subclass of \<^verbatim>\<open>Exception\<close> (\<^verbatim>\<open>KeyboardInterrupt\<close>, \<^verbatim>\<open>SystemExit\<close>) passes both
  handlers. The string is \<^verbatim>\<open>str(e)\<close>, which the second handler logs.
\<close>

datatype exn =
    PermissionError string
  | OSError string
  | KeyboardInterrupt
  | SystemExit

fun is_Exception :: "exn \<Rightarrow> bool" where
  "is_Exception KeyboardInterrupt = False"
| "is_Exception SystemExit = False"
| "is_Exception _ = True"

fun is_PermissionError :: "exn \<Rightarrow> bool" where
  "is_PermissionError (PermissionError m) = True"
| "is_PermissionError _ = False"

fun exn_str :: "exn \<Rightarrow> string" where
  "exn_str (PermissionError m) = m"
| "exn_str (OSError m) = m"
| "exn_str KeyboardInterrupt = ''''"
| "exn_str SystemExit = ''''"

text \<open>What a call returns: no method of the class returns anything but \<^verbatim>\<open>None\<close>;
  \<^verbatim>\<open>get_door_controller\<close> returns a reference to an object.\<close>

datatype pyval = PyNone | PyBool bool | PyRef nat

datatype level = DEBUG | INFO | WARNING | ERROR

text \<open>
  The effects outside the object: a record handed to \<^verbatim>\<open>logging\<close>, one
  \<^verbatim>\<open>with open(path, 'w') as f: f.write(text)\<close> with what it raised (if anything), and
  one \<^verbatim>\<open>time.sleep(d)\<close> with what it raised (if anything).
\<close>

datatype event =
    Log level string
  | Write string string "exn option"
  | Sleep nat "exn option"

fun is_write :: "event \<Rightarrow> bool" where
  "is_write (Write p s r) = True"
| "is_write _ = False"

fun is_sleep :: "event \<Rightarrow> bool" where
  "is_sleep (Sleep d r) = True"
| "is_sleep _ = False"

fun is_log :: "event \<Rightarrow> bool" where
  "is_log (Log l m) = True"
| "is_log _ = False"

definition writes :: "event list \<Rightarrow> event list" where
  "writes evs = filter is_write evs"

definition sleeps :: "event list \<Rightarrow> event list" where
  "sleeps evs = filter is_sleep evs"

subsection \<open>\<^verbatim>\<open>str\<close> on integers\<close>

definition digit_char :: "nat \<Rightarrow> char" where
  "digit_char n = ''0123456789'' ! (n mod 10)"

fun str_nat :: "nat \<Rightarrow> string" where
  "str_nat n = (if n < 10 then [digit_char n] else str_nat (n div 10) @ [digit_char n])"

declare str_nat.simps [simp del]

definition str_int :: "int \<Rightarrow> string" where
  "str_int i = (if i < 0 then CHR ''-'' # str_nat (nat (- i)) else str_nat (nat i))"

section \<open>The door controller\<close>

text \<open>
  The attributes of a \<^verbatim>\<open>DoorController\<close> once \<^verbatim>\<open>__init__\<close> has run. \<open>door_lock\<close> is
  the \<^verbatim>\<open>threading.Lock\<close>: \<open>True\<close> while it is held. \<open>led_path\<close> is \<open>None\<close> or the
  path of the brightness file.
\<close>

record door =
  status :: bool
  door_lock :: bool
  led_path :: "string option"

text \<open>
  \<^verbatim>\<open>backend.config\<close> is not among the sources; its two constants are parameters.
  \<^verbatim>\<open>LED_SYSFS_PATH\<close> is \<^verbatim>\<open>None\<close> or a string. \<^verbatim>\<open>DOOR_OPEN_DURATION\<close> is a
  duration, a natural number of time units, that is only handed to \<^verbatim>\<open>time.sleep\<close>: a
  negative duration, for which \<^verbatim>\<open>time.sleep\<close> raises \<^verbatim>\<open>ValueError\<close>, is no value of
  the type.
\<close>

record config =
  LED_SYSFS_PATH :: "string option"
  DOOR_OPEN_DURATION :: nat

text \<open>Python's truth value of \<^verbatim>\<open>LED_SYSFS_PATH\<close>: \<^verbatim>\<open>None\<close> and \<^verbatim>\<open>""\<close> are false.\<close>

fun truthy :: "string option \<Rightarrow> bool" where
  "truthy None = False"
| "truthy (Some s) = (s \<noteq> [])"

subsection \<open>\<^verbatim>\<open>_set_led\<close>\<close>

text \<open>
  \<open>io\<close> is what the file write of this call raises, \<open>None\<close> when it succeeds. The
  object is not changed, so only the result and the events are returned.
\<close>

definition set_led :: "exn option \<Rightarrow> int \<Rightarrow> door \<Rightarrow> (exn + pyval) \<times> event list" where
  "set_led io brightness self =
     (case led_path self of
        None \<Rightarrow>
          (Inr PyNone, [Log DEBUG ''[DoorController] LED not configured, simulating LED control''])
      | Some p \<Rightarrow>
          (let b = max 0 (min 255 brightness) in
           case io of
             None \<Rightarrow>
               (Inr PyNone,
                [Write p (str_int b) None,
                 Log INFO (''[DoorController] LED brightness set to '' @ str_int b)])
           | Some e \<Rightarrow>
               if is_PermissionError e then
                 (Inr PyNone,
                  [Write p (str_int b) (Some e),
                   Log ERROR (''[DoorController] Permission denied: '' @ p @
                              ''. Run with sudo or configure udev rules.'')])
               else if is_Exception e then
                 (Inr PyNone,
                  [Write p (str_int b) (Some e),
                   Log ERROR (''[DoorController] Failed to control LED: '' @ exn_str e)])
               else
                 (Inl e, [Write p (str_int b) (Some e)])))"

subsection \<open>\<^verbatim>\<open>open\<close>\<close>

text \<open>\<^verbatim>\<open>time.sleep(d)\<close> for a duration \<open>d\<close>: \<open>sf\<close> is what interrupts it (a
  \<^verbatim>\<open>KeyboardInterrupt\<close> from a signal, an \<^verbatim>\<open>OSError\<close> of the system call), \<open>None\<close>
  when it returns.\<close>

definition time_sleep :: "exn option \<Rightarrow> nat \<Rightarrow> (exn + pyval) \<times> event list" where
  "time_sleep sf d = (case sf of None \<Rightarrow> (Inr PyNone, [Sleep d None])
                               | Some e \<Rightarrow> (Inl e, [Sleep d (Some e)]))"

text \<open>
  The body of the \<^verbatim>\<open>try\<close> block (lines 72 to 83), run with the lock held. \<open>io1\<close> and
  \<open>io2\<close> are what the two file writes raise, \<open>sf\<close> what the sleep raises.
\<close>

definition open_body ::
  "config \<Rightarrow> exn option \<Rightarrow> exn option \<Rightarrow> exn option \<Rightarrow> door \<Rightarrow> (exn + pyval) \<times> door \<times> event list"
where
  "open_body cfg io1 sf io2 self =
     (let ev0 = [Log INFO ''[DoorController] Open the door (LED ON)''] in
      case set_led io1 255 self of
        (Inl e, ev1) \<Rightarrow> (Inl e, self, ev0 @ ev1)
      | (Inr _, ev1) \<Rightarrow>
          (let self1 = self\<lparr>status := True\<rparr> in
           case time_sleep sf (DOOR_OPEN_DURATION cfg) of
             (Inl e, ev2) \<Rightarrow> (Inl e, self1, ev0 @ ev1 @ ev2)
           | (Inr _, ev2) \<Rightarrow>
               (let ev3 = [Log INFO ''[DoorController] Close the door (LED OFF)''] in
                case set_led io2 0 self1 of
                  (Inl e, ev4) \<Rightarrow> (Inl e, self1, ev0 @ ev1 @ ev2 @ ev3 @ ev4)
                | (Inr _, ev4) \<Rightarrow>
                    (Inr PyNone, self1\<lparr>status := False\<rparr>, ev0 @ ev1 @ ev2 @ ev3 @ ev4))))"

text \<open>
  \<^verbatim>\<open>open\<close>: the non-blocking acquire, the early \<^verbatim>\<open>return\<close> when the lock is held, and
  the \<^verbatim>\<open>try\<close> block with its \<^verbatim>\<open>finally\<close>, which releases the lock and lets a pending
  exception go on. Both ways out that return a value return \<^verbatim>\<open>None\<close>. This is the call
  as a function of what its two writes and its sleep raise. The acquire of line 67 stands
  outside the \<^verbatim>\<open>try\<close> block: the call that an exception leaves there, with the lock
  held, is a step of the statement-by-statement model of the next section.
\<close>

definition open_door ::
  "config \<Rightarrow> exn option \<Rightarrow> exn option \<Rightarrow> exn option \<Rightarrow> door \<Rightarrow> (exn + pyval) \<times> door \<times> event list"
where
  "open_door cfg io1 sf io2 self =
     (if door_lock self then
        (Inr PyNone, self, [Log INFO ''[DoorController] Door is busy''])
      else
        (case open_body cfg io1 sf io2 (self\<lparr>door_lock := True\<rparr>) of
           (r, self', evs) \<Rightarrow> (r, self'\<lparr>door_lock := False\<rparr>, evs)))"

subsection \<open>\<^verbatim>\<open>Path\<close>\<close>

text \<open>
  \<^verbatim>\<open>str(Path(s))\<close> on a POSIX system, after \<^verbatim>\<open>pathlib\<close>: the root is \<^verbatim>\<open>//\<close> for
  exactly two leading slashes and \<^verbatim>\<open>/\<close> for one or more than two; of the pieces between
  slashes the empty ones and \<^verbatim>\<open>.\<close> are dropped; the rest is joined by single slashes; the
  empty result is written \<^verbatim>\<open>.\<close>.
\<close>

fun split_slash :: "string \<Rightarrow> string list" where
  "split_slash [] = [[]]"
| "split_slash (c # cs) =
     (if c = CHR ''/'' then [] # split_slash cs
      else (case split_slash cs of [] \<Rightarrow> [[c]] | x # xs \<Rightarrow> (c # x) # xs))"

fun join_slash :: "string list \<Rightarrow> string" where
  "join_slash [] = []"
| "join_slash [x] = x"
| "join_slash (x # y # ys) = x @ CHR ''/'' # join_slash (y # ys)"

definition path_str :: "string \<Rightarrow> string" where
  "path_str s =
     (let k = length (takeWhile (\<lambda>c. c = CHR ''/'') s);
          root = (if k = 2 then ''//'' else if 0 < k then ''/'' else []);
          rel = dropWhile (\<lambda>c. c = CHR ''/'') s;
          parts = filter (\<lambda>x. x \<noteq> [] \<and> x \<noteq> ''.'') (split_slash rel);
          r = root @ join_slash parts
      in if r = [] then ''.'' else r)"

subsection \<open>\<^verbatim>\<open>__init__\<close>\<close>

text \<open>
  \<open>self\<close> is \<open>None\<close> for an object that has no attribute yet (what \<^verbatim>\<open>__new__\<close>
  hands to \<^verbatim>\<open>__init__\<close>) and \<open>Some d\<close> once \<^verbatim>\<open>_initialized\<close> and the other
  attributes are set, so \<^verbatim>\<open>hasattr(self, "_initialized")\<close> is \<open>self \<noteq> None\<close>.
  \<open>led_path\<close> holds the \<^verbatim>\<open>Path\<close> as the string that \<^verbatim>\<open>str\<close>, \<^verbatim>\<open>open\<close> and the log
  lines see. \<open>path_exists\<close> is \<^verbatim>\<open>Path.exists\<close> on the file system at hand: it answers
  \<open>Inr True\<close> or \<open>Inr False\<close>, or raises the \<^verbatim>\<open>OSError\<close> of the \<^verbatim>\<open>stat\<close> call that is
  not one of "not found" (a directory that may not be searched, a name that is too long),
  and \<^verbatim>\<open>__init__\<close> has no handler for it. \<open>io\<close> is what the file write of
  \<^verbatim>\<open>_set_led(0)\<close> raises. All attributes are assigned before anything can raise.
\<close>

definition init ::
  "config \<Rightarrow> (string \<Rightarrow> exn + bool) \<Rightarrow> exn option \<Rightarrow> bool \<Rightarrow> door option
     \<Rightarrow> (exn + pyval) \<times> door \<times> event list"
where
  "init cfg path_exists io st self =
     (case self of
        Some d \<Rightarrow> (Inr PyNone, d, [])
      | None \<Rightarrow>
          (let d = \<lparr>status = st, door_lock = False,
                    led_path = (if truthy (LED_SYSFS_PATH cfg)
                                then map_option path_str (LED_SYSFS_PATH cfg) else None)\<rparr>
           in case led_path d of
                Some p \<Rightarrow>
                  (case path_exists p of
                     Inl e \<Rightarrow> (Inl e, d, [])
                   | Inr True \<Rightarrow>
                       (let ev0 = [Log INFO (''[DoorController] LED device found: '' @ p)] in
                        case set_led io 0 d of
                          (Inl e, ev1) \<Rightarrow> (Inl e, d, ev0 @ ev1)
                        | (Inr _, ev1) \<Rightarrow>
                            (Inr PyNone, d,
                             ev0 @ ev1 @
                             [Log INFO ''[DoorController] LED turned off on initialization'']))
                   | Inr False \<Rightarrow>
                       (Inr PyNone, d\<lparr>led_path := None\<rparr>,
                        [Log WARNING (''[DoorController] LED device not found: '' @ p)]))
              | None \<Rightarrow>
                  (Inr PyNone, d,
                   [Log INFO ''[DoorController] LED control disabled (LED_SYSFS_PATH not configured)''])))"

subsection \<open>\<^verbatim>\<open>get_door_controller\<close>\<close>

text \<open>
  Objects live in a store, so that "the same instance" means the same address. The module
  global \<^verbatim>\<open>_door_controller_instance\<close> is \<open>None\<close> or an address. A call that finds it
  \<open>None\<close> allocates the next address, runs \<^verbatim>\<open>__init__\<close> with the default
  \<^verbatim>\<open>status=False\<close> and binds the global; when \<^verbatim>\<open>__init__\<close> raises, the global stays
  \<open>None\<close> and the object is unreachable.
\<close>

record process =
  heap :: "door list"
  door_controller_instance :: "nat option"

definition get_door_controller ::
  "config \<Rightarrow> (string \<Rightarrow> exn + bool) \<Rightarrow> exn option \<Rightarrow> process
     \<Rightarrow> (exn + pyval) \<times> process \<times> event list"
where
  "get_door_controller cfg path_exists io p =
     (case door_controller_instance p of
        Some a \<Rightarrow> (Inr (PyRef a), p, [])
      | None \<Rightarrow>
          (case init cfg path_exists io False None of
             (Inl e, d, evs) \<Rightarrow> (Inl e, p, evs)
           | (Inr _, d, evs) \<Rightarrow>
               (Inr (PyRef (length (heap p))),
                p\<lparr>heap := heap p @ [d], door_controller_instance := Some (length (heap p))\<rparr>,
                evs)))"

section \<open>Threads calling \<^verbatim>\<open>open\<close> on one controller\<close>

text \<open>
  Where a thread stands in \<^verbatim>\<open>open\<close>: before the acquire (line 67), before each
  statement of the \<^verbatim>\<open>try\<close> block (lines 74, 75, 78, 82, 83), before the release in
  \<^verbatim>\<open>finally\<close> (line 87) with the exception that is pending, if any, and after the call:
  returned from line 69, returned after the \<^verbatim>\<open>finally\<close>, left by an exception that
  went through the \<^verbatim>\<open>finally\<close>, or left by an exception that arrived at line 67, after
  the acquire had succeeded and before the \<^verbatim>\<open>try\<close> block was entered.
\<close>

datatype pc =
    AtAcquire
  | AtAssert
  | AtSetTrue
  | AtSleep
  | AtDeassert
  | AtSetFalse
  | AtFinally "exn option"
  | ReturnedBusy
  | Returned
  | Raised exn
  | Interrupted exn

text \<open>
  One statement of one thread. \<open>r\<close> is what the statement's file write or sleep raises;
  at the acquire it is an exception (a \<^verbatim>\<open>KeyboardInterrupt\<close>, say) that arrives when the
  acquire has succeeded: line 67 is outside the \<^verbatim>\<open>try\<close> block of line 71, so the
  exception leaves \<^verbatim>\<open>open\<close> and the lock stays held. The other statements do not look
  at \<open>r\<close>. A thread that has left \<^verbatim>\<open>open\<close> does nothing. No statement waits: the
  acquire is \<^verbatim>\<open>acquire(blocking=False)\<close>.
\<close>

fun thread_step :: "config \<Rightarrow> exn option \<Rightarrow> pc \<Rightarrow> door \<Rightarrow> pc \<times> door \<times> event list" where
  "thread_step cfg r AtAcquire self =
     (if door_lock self then (ReturnedBusy, self, [Log INFO ''[DoorController] Door is busy''])
      else (case r of
              None \<Rightarrow> (AtAssert, self\<lparr>door_lock := True\<rparr>, [])
            | Some e \<Rightarrow> (Interrupted e, self\<lparr>door_lock := True\<rparr>, [])))"
| "thread_step cfg r AtAssert self =
     (let ev0 = [Log INFO ''[DoorController] Open the door (LED ON)''] in
      case set_led r 255 self of
        (Inl e, ev1) \<Rightarrow> (AtFinally (Some e), self, ev0 @ ev1)
      | (Inr _, ev1) \<Rightarrow> (AtSetTrue, self, ev0 @ ev1))"
| "thread_step cfg r AtSetTrue self = (AtSleep, self\<lparr>status := True\<rparr>, [])"
| "thread_step cfg r AtSleep self =
     (case time_sleep r (DOOR_OPEN_DURATION cfg) of
        (Inl e, ev2) \<Rightarrow> (AtFinally (Some e), self, ev2)
      | (Inr _, ev2) \<Rightarrow> (AtDeassert, self, ev2))"
| "thread_step cfg r AtDeassert self =
     (let ev3 = [Log INFO ''[DoorController] Close the door (LED OFF)''] in
      case set_led r 0 self of
        (Inl e, ev4) \<Rightarrow> (AtFinally (Some e), self, ev3 @ ev4)
      | (Inr _, ev4) \<Rightarrow> (AtSetFalse, self, ev3 @ ev4))"
| "thread_step cfg r AtSetFalse self = (AtFinally None, self\<lparr>status := False\<rparr>, [])"
| "thread_step cfg r (AtFinally None) self = (Returned, self\<lparr>door_lock := False\<rparr>, [])"
| "thread_step cfg r (AtFinally (Some e)) self = (Raised e, self\<lparr>door_lock := False\<rparr>, [])"
| "thread_step cfg r ReturnedBusy self = (ReturnedBusy, self, [])"
| "thread_step cfg r Returned self = (Returned, self, [])"
| "thread_step cfg r (Raised e) self = (Raised e, self, [])"
| "thread_step cfg r (Interrupted e) self = (Interrupted e, self, [])"

text \<open>
  The threads share the controller and the outside world. A schedule is a list of
  (thread, outcome of its statement); the threads run interleaved, one statement at a
  time, in the schedule's order. An entry for a thread that does not exist does nothing.
\<close>

record system =
  pcs :: "pc list"
  gate :: door
  trace :: "event list"

definition sched_step :: "config \<Rightarrow> system \<Rightarrow> nat \<times> exn option \<Rightarrow> system" where
  "sched_step cfg s x =
     (case x of (i, r) \<Rightarrow>
        if i < length (pcs s) then
          (case thread_step cfg r (pcs s ! i) (gate s) of
             (q, d, evs) \<Rightarrow> \<lparr>pcs = (pcs s)[i := q], gate = d, trace = trace s @ evs\<rparr>)
        else s)"

definition run :: "config \<Rightarrow> (nat \<times> exn option) list \<Rightarrow> system \<Rightarrow> system" where
  "run cfg sch s = foldl (sched_step cfg) s sch"

text \<open>\<open>n\<close> threads, each about to call \<^verbatim>\<open>open\<close> on the controller \<open>d\<close>.\<close>

definition init_system :: "nat \<Rightarrow> door \<Rightarrow> system" where
  "init_system n d = \<lparr>pcs = replicate n AtAcquire, gate = d, trace = []\<rparr>"

text \<open>A thread is in flight between its successful acquire and its release, inside
  \<^verbatim>\<open>open\<close>.\<close>

fun in_flight :: "pc \<Rightarrow> bool" where
  "in_flight AtAssert = True"
| "in_flight AtSetTrue = True"
| "in_flight AtSleep = True"
| "in_flight AtDeassert = True"
| "in_flight AtSetFalse = True"
| "in_flight (AtFinally pe) = True"
| "in_flight _ = False"

text \<open>A thread has finished an admitted activation: it returned after the
  \<^verbatim>\<open>finally\<close>, or an exception left \<^verbatim>\<open>open\<close>.\<close>

fun finished_cycle :: "pc \<Rightarrow> bool" where
  "finished_cycle Returned = True"
| "finished_cycle (Raised e) = True"
| "finished_cycle (Interrupted e) = True"
| "finished_cycle _ = False"

text \<open>An exception at line 67 ended the thread's call when it had acquired the lock.\<close>

fun interrupted :: "pc \<Rightarrow> bool" where
  "interrupted (Interrupted e) = True"
| "interrupted _ = False"

text \<open>The output is asserted: after \<^verbatim>\<open>status = True\<close> and before \<^verbatim>\<open>status = False\<close>.\<close>

fun holding :: "pc \<Rightarrow> bool" where
  "holding AtSleep = True"
| "holding AtDeassert = True"
| "holding AtSetFalse = True"
| "holding _ = False"

section \<open>Notions used in the statements\<close>

text \<open>A file write raises nothing, or something that the handlers of \<^verbatim>\<open>_set_led\<close>
  catch.\<close>

definition swallowed :: "exn option \<Rightarrow> bool" where
  "swallowed io = (case io of None \<Rightarrow> True | Some e \<Rightarrow> is_Exception e)"

text \<open>What a run does to the outside, whatever the operations raised and whatever was
  logged: the writes and sleeps, in order, without their outcomes.\<close>

fun erase :: "event \<Rightarrow> event" where
  "erase (Write p s r) = Write p s None"
| "erase (Sleep d r) = Sleep d None"
| "erase (Log l m) = Log l m"

definition effects :: "event list \<Rightarrow> event list" where
  "effects evs = map erase (filter (\<lambda>e. \<not> is_log e) evs)"

text \<open>A configuration and two controllers to evaluate the definitions on: the
  brightness file of the board's LED, a hold of three time units, a controller at rest
  and one whose lock another thread holds during its hold.\<close>

definition led_file :: string where
  "led_file = ''/sys/class/leds/work/brightness''"

definition cfg3 :: config where
  "cfg3 = \<lparr>LED_SYSFS_PATH = Some led_file, DOOR_OPEN_DURATION = 3\<rparr>"

definition idle_door :: door where
  "idle_door = \<lparr>status = False, door_lock = False, led_path = Some led_file\<rparr>"

definition busy_door :: door where
  "busy_door = \<lparr>status = True, door_lock = True, led_path = Some led_file\<rparr>"

text \<open>A process in which \<^verbatim>\<open>get_door_controller\<close> has not been called yet, and three
  file systems: one where the brightness file exists, one where no file exists, and one
  where the directory of the file may not be searched, so that \<^verbatim>\<open>stat\<close> fails with
  \<^verbatim>\<open>EACCES\<close>.\<close>

definition fresh_process :: process where
  "fresh_process = \<lparr>heap = [], door_controller_instance = None\<rparr>"

definition present :: "string \<Rightarrow> exn + bool" where
  "present p = Inr (p = led_file)"

definition absent :: "string \<Rightarrow> exn + bool" where
  "absent p = Inr False"

definition unsearchable :: "string \<Rightarrow> exn + bool" where
  "unsearchable p = Inl (PermissionError ''[Errno 13] Permission denied'')"

text \<open>How many threads are at a position of a given kind.\<close>

definition count :: "('a \<Rightarrow> bool) \<Rightarrow> 'a list \<Rightarrow> nat" where
  "count P xs = length (filter P xs)"

text \<open>A thread was rejected: it returned at line 69.\<close>

definition rejected :: "pc \<Rightarrow> bool" where
  "rejected q = (q = ReturnedBusy)"

text \<open>An event that shows an activation ended by an exception after its
  \<^verbatim>\<open>status = True\<close>: the sleep raised, or the write of 0 raised what \<^verbatim>\<open>_set_led\<close> does
  not catch.\<close>

fun late_fault :: "event \<Rightarrow> bool" where
  "late_fault (Sleep d r) = (r \<noteq> None)"
| "late_fault (Write p t r) = (t = ''0'' \<and> \<not> swallowed r)"
| "late_fault (Log l m) = False"

text \<open>Four invariants of the interleaved runs: at most one thread is in flight, and only
  while the lock is held; the lock is only held while a thread is in flight or after an
  exception at line 67; a thread can only have been rejected while the lock was held or
  after some activation finished; the status is only true while a thread is in its hold
  or after an activation ended by an exception after its \<^verbatim>\<open>status = True\<close>.\<close>

definition lock_inv :: "system \<Rightarrow> bool" where
  "lock_inv s = (count in_flight (pcs s) \<le> (if door_lock (gate s) then 1 else 0))"

definition held_inv :: "system \<Rightarrow> bool" where
  "held_inv s = (door_lock (gate s) \<longrightarrow>
                   0 < count in_flight (pcs s) + count interrupted (pcs s))"

definition busy_inv :: "system \<Rightarrow> bool" where
  "busy_inv s = (0 < count rejected (pcs s) \<longrightarrow>
                   door_lock (gate s) \<or> 0 < count finished_cycle (pcs s))"

definition status_inv :: "system \<Rightarrow> bool" where
  "status_inv s = (status (gate s) \<longrightarrow>
                     0 < count holding (pcs s) \<or> (\<exists>ev \<in> set (trace s). late_fault ev))"

text \<open>Four schedules: three threads that all make their attempt before anything else
  happens (thread 1 first), thread 1 running on through its six remaining statements,
  thread 0 running on through its six remaining statements with its sleep interrupted,
  and one thread that runs through its call alone.\<close>

definition three_race :: "(nat \<times> exn option) list" where
  "three_race = [(1, None), (0, None), (2, None)]"

definition winner_runs :: "(nat \<times> exn option) list" where
  "winner_runs = [(1, None), (1, None), (1, None), (1, None), (1, None), (1, None)]"

definition sleep_interrupted :: "(nat \<times> exn option) list" where
  "sleep_interrupted =
     [(0, None), (0, None), (0, Some KeyboardInterrupt), (0, None), (0, None), (0, None)]"

definition one_call :: "(nat \<times> exn option) list" where
  "one_call = [(0, None), (0, None), (0, None), (0, None), (0, None), (0, None), (0, None)]"

text \<open>The number that a string of decimal digits denotes.\<close>

definition digit_val :: "char \<Rightarrow> nat" where
  "digit_val c = of_char c - 48"

definition decimal_value :: "string \<Rightarrow> nat" where
  "decimal_value s = foldl (\<lambda>a c. 10 * a + digit_val c) 0 s"

section \<open>Basic facts\<close>

lemma str_int_255: "str_int 255 = ''255''"
  by (simp add: str_int_def str_nat.simps digit_char_def)

lemma str_int_0: "str_int 0 = ''0''"
  by (simp add: str_int_def str_nat.simps digit_char_def)

lemma digit_val_digit_char: "digit_val (digit_char n) = n mod 10"
proof -
  have "k < 10 \<Longrightarrow> digit_val (''0123456789'' ! k) = k" for k :: nat
    by (simp add: digit_val_def less_Suc_eq numeral_eq_Suc) (elim disjE; simp)
  then show ?thesis by (simp add: digit_char_def)
qed

lemma decimal_value_snoc: "decimal_value (s @ [c]) = 10 * decimal_value s + digit_val c"
  by (simp add: decimal_value_def)

lemma decimal_value_str_nat: "decimal_value (str_nat n) = n"
proof (induction n rule: str_nat.induct)
  case (1 n)
  show ?case
  proof (cases "n < 10")
    case True
    then show ?thesis
      by (subst str_nat.simps) (simp add: decimal_value_def digit_val_digit_char)
  next
    case False
    with 1 have "decimal_value (str_nat (n div 10)) = n div 10" by simp
    with False show ?thesis
      by (subst str_nat.simps) (simp add: decimal_value_snoc digit_val_digit_char)
  qed
qed

lemma decimal_value_str_int: "0 \<le> i \<Longrightarrow> int (decimal_value (str_int i)) = i"
  by (simp add: str_int_def decimal_value_str_nat)

lemma path_str_led_file: "path_str led_file = led_file"
  by (simp add: path_str_def led_file_def Let_def)

lemma PermissionError_is_Exception [simp]: "is_PermissionError e \<Longrightarrow> is_Exception e"
  by (cases e) simp_all

lemma writes_simps:
  "writes [] = []"
  "writes (Log l m # xs) = writes xs"
  "writes (Sleep d r # xs) = writes xs"
  "writes (Write p s r # xs) = Write p s r # writes xs"
  by (simp_all add: writes_def)

lemma sleeps_simps:
  "sleeps [] = []"
  "sleeps (Log l m # xs) = sleeps xs"
  "sleeps (Sleep d r # xs) = Sleep d r # sleeps xs"
  "sleeps (Write p s r # xs) = sleeps xs"
  by (simp_all add: sleeps_def)

lemma writes_append: "writes (xs @ ys) = writes xs @ writes ys"
  by (simp add: writes_def)

lemma sleeps_append: "sleeps (xs @ ys) = sleeps xs @ sleeps ys"
  by (simp add: sleeps_def)

lemma effects_simps:
  "effects [] = []"
  "effects (Log l m # xs) = effects xs"
  "effects (Write p s r # xs) = Write p s None # effects xs"
  "effects (Sleep d r # xs) = Sleep d None # effects xs"
  "effects (xs @ ys) = effects xs @ effects ys"
  by (simp_all add: effects_def)

subsection \<open>\<^verbatim>\<open>_set_led\<close>\<close>

lemma set_led_result:
  "fst (set_led io b self) =
     (if led_path self = None \<or> swallowed io then Inr PyNone else Inl (the io))"
  by (cases io) (auto simp: set_led_def swallowed_def Let_def split: option.splits)

lemma set_led_writes:
  "writes (snd (set_led io b self)) =
     (case led_path self of None \<Rightarrow> []
      | Some p \<Rightarrow> [Write p (str_int (max 0 (min 255 b))) io])"
  by (cases io) (auto simp: set_led_def writes_def Let_def split: option.splits)

lemma set_led_sleeps: "sleeps (snd (set_led io b self)) = []"
  by (cases io) (auto simp: set_led_def sleeps_def Let_def split: option.splits)

lemma set_led_effects:
  "effects (snd (set_led io b self)) =
     (case led_path self of None \<Rightarrow> []
      | Some p \<Rightarrow> [Write p (str_int (max 0 (min 255 b))) None])"
  by (cases io) (auto simp: set_led_def effects_def Let_def split: option.splits)

lemma set_led_status_irrelevant:
  "set_led io b (self\<lparr>status := x\<rparr>) = set_led io b self"
  "set_led io b (self\<lparr>door_lock := y\<rparr>) = set_led io b self"
  by (simp_all add: set_led_def)

subsection \<open>\<^verbatim>\<open>open\<close>, path by path\<close>

lemma open_door_admitted:
  assumes "\<not> door_lock self"
  shows "open_door cfg io1 sf io2 self =
    (case set_led io1 255 self of
       (Inl e, ev1) \<Rightarrow> (Inl e, self, Log INFO ''[DoorController] Open the door (LED ON)'' # ev1)
     | (Inr v, ev1) \<Rightarrow>
        (case sf of
           Some e \<Rightarrow>
             (Inl e, self\<lparr>status := True\<rparr>,
              Log INFO ''[DoorController] Open the door (LED ON)'' # ev1 @
                [Sleep (DOOR_OPEN_DURATION cfg) (Some e)])
         | None \<Rightarrow>
            (case set_led io2 0 self of
               (Inl e, ev4) \<Rightarrow>
                 (Inl e, self\<lparr>status := True\<rparr>,
                  Log INFO ''[DoorController] Open the door (LED ON)'' # ev1 @
                    [Sleep (DOOR_OPEN_DURATION cfg) None] @
                    Log INFO ''[DoorController] Close the door (LED OFF)'' # ev4)
             | (Inr v, ev4) \<Rightarrow>
                 (Inr PyNone, self\<lparr>status := False\<rparr>,
                  Log INFO ''[DoorController] Open the door (LED ON)'' # ev1 @
                    [Sleep (DOOR_OPEN_DURATION cfg) None] @
                    Log INFO ''[DoorController] Close the door (LED OFF)'' # ev4))))"
proof -
  have eq: "self\<lparr>door_lock := False\<rparr> = self"
    using assms by simp
  have eq2: "\<And>x. self\<lparr>door_lock := True, status := x, door_lock := False\<rparr> = self\<lparr>status := x\<rparr>"
    using assms by (cases self) simp
  have eq3: "\<And>x z. self\<lparr>door_lock := True, status := x, status := z, door_lock := False\<rparr>
                = self\<lparr>status := z\<rparr>"
    using assms by (cases self) simp
  show ?thesis
    using assms
    by (simp add: open_door_def open_body_def Let_def time_sleep_def set_led_status_irrelevant
        eq eq2 eq3 split: prod.splits sum.splits option.splits)
qed

section \<open>The claims about a single call\<close>

text \<open>
  C1, as the code has it. \<^verbatim>\<open>open\<close> has no boolean result: a rejected call returns
  \<^verbatim>\<open>None\<close> at line 69, an admitted call whose sleep raises nothing and whose writes raise
  nothing but what \<^verbatim>\<open>_set_led\<close> catches runs to completion and returns \<^verbatim>\<open>None\<close>, and
  whenever a call returns, it returns \<^verbatim>\<open>None\<close>.
\<close>

theorem open_door_returns_None:
  "(door_lock self \<longrightarrow> fst (open_door cfg io1 sf io2 self) = Inr PyNone) \<and>
   (\<not> door_lock self \<and> swallowed io1 \<and> sf = None \<and> swallowed io2
      \<longrightarrow> fst (open_door cfg io1 sf io2 self) = Inr PyNone) \<and>
   (\<forall>v. fst (open_door cfg io1 sf io2 self) = Inr v \<longrightarrow> v = PyNone)"
proof (cases "door_lock self")
  case True
  then show ?thesis by (simp add: open_door_def)
next
  case False
  obtain r1 ev1 where s1: "set_led io1 255 self = (r1, ev1)"
    by (cases "set_led io1 255 self")
  obtain r2 ev2 where s2: "set_led io2 0 self = (r2, ev2)"
    by (cases "set_led io2 0 self")
  have r1: "r1 = (if led_path self = None \<or> swallowed io1 then Inr PyNone else Inl (the io1))"
    using set_led_result [of io1 255 self] s1 by simp
  have r2: "r2 = (if led_path self = None \<or> swallowed io2 then Inr PyNone else Inl (the io2))"
    using set_led_result [of io2 0 self] s2 by simp
  show ?thesis
    using False
    by (auto simp: open_door_admitted s1 s2 r1 r2 split: option.splits)
qed

theorem open_door_returns_None_witness:
  "door_lock busy_door \<and> fst (open_door cfg3 None None None busy_door) = Inr PyNone \<and>
   \<not> door_lock idle_door \<and> swallowed (Some (PermissionError ''denied'')) \<and> swallowed None \<and>
   fst (open_door cfg3 (Some (PermissionError ''denied'')) None None idle_door) = Inr PyNone"
proof -
  have busy: "door_lock busy_door"
    by (simp add: busy_door_def)
  have idle: "\<not> door_lock idle_door"
    by (simp add: idle_door_def)
  have sw: "swallowed (Some (PermissionError ''denied''))" "swallowed None"
    by (simp_all add: swallowed_def)
  have 1: "fst (open_door cfg3 None None None busy_door) = Inr PyNone"
    using open_door_returns_None [of busy_door cfg3 None None None] busy by simp
  have 2: "fst (open_door cfg3 (Some (PermissionError ''denied'')) None None idle_door) = Inr PyNone"
    using open_door_returns_None [of idle_door cfg3 "Some (PermissionError ''denied'')" None None]
      idle sw by simp
  show ?thesis
    using busy idle sw 1 2 by simp
qed

text \<open>C1, as the claim states it, fails: the call that wins admission and runs to
  completion does not return \<^verbatim>\<open>True\<close>, and the rejected call does not return \<^verbatim>\<open>False\<close>;
  both return \<^verbatim>\<open>None\<close>. And these are not the only outcomes: an admitted call whose
  sleep is interrupted raises.\<close>

theorem open_door_bool_counterexample:
  "fst (open_door cfg3 None None None idle_door) = Inr PyNone \<and>
   fst (open_door cfg3 None None None idle_door) \<noteq> Inr (PyBool True) \<and>
   fst (open_door cfg3 None None None busy_door) = Inr PyNone \<and>
   fst (open_door cfg3 None None None busy_door) \<noteq> Inr (PyBool False) \<and>
   fst (open_door cfg3 None (Some KeyboardInterrupt) None idle_door) = Inl KeyboardInterrupt"
  by (simp add: open_door_def open_body_def set_led_def time_sleep_def idle_door_def
      busy_door_def Let_def)

text \<open>
  C4. A call that finds the lock held returns at once: the controller (status, lock and
  path) is as before, nothing is written to the device and nothing sleeps. All it leaves
  is one line in the log.
\<close>

theorem open_door_rejected_no_effect:
  assumes "door_lock self"
  shows "open_door cfg io1 sf io2 self =
           (Inr PyNone, self, [Log INFO ''[DoorController] Door is busy'']) \<and>
         writes (snd (snd (open_door cfg io1 sf io2 self))) = [] \<and>
         sleeps (snd (snd (open_door cfg io1 sf io2 self))) = []"
  using assms by (simp add: open_door_def writes_def sleeps_def)

theorem open_door_rejected_no_effect_witness:
  "door_lock busy_door \<and>
   open_door cfg3 None None None busy_door =
     (Inr PyNone, busy_door, [Log INFO ''[DoorController] Door is busy'']) \<and>
   writes (snd (snd (open_door cfg3 None None None busy_door))) = [] \<and>
   sleeps (snd (snd (open_door cfg3 None None None busy_door))) = []"
proof -
  have busy: "door_lock busy_door"
    by (simp add: busy_door_def)
  show ?thesis
    using busy open_door_rejected_no_effect [OF busy, of cfg3 None None None]
    by (simp add: writes_simps sleeps_simps)
qed

text \<open>
  C5, as the code has it. An admitted call on a controller with a device that returns
  performs two writes to the device and no other: the text 255, then the text 0. An
  admitted call whose sleep raises leaves with that exception and has performed the write
  of 255 only.
\<close>

theorem open_door_two_writes:
  assumes "\<not> door_lock self" and "led_path self = Some p"
  shows "(\<forall>v. fst (open_door cfg io1 sf io2 self) = Inr v \<longrightarrow>
            writes (snd (snd (open_door cfg io1 sf io2 self))) =
              [Write p ''255'' io1, Write p ''0'' io2]) \<and>
         (\<forall>e. swallowed io1 \<and> sf = Some e \<longrightarrow>
            fst (open_door cfg io1 sf io2 self) = Inl e \<and>
            writes (snd (snd (open_door cfg io1 sf io2 self))) = [Write p ''255'' io1])"
proof -
  obtain r1 ev1 where s1: "set_led io1 255 self = (r1, ev1)"
    by (cases "set_led io1 255 self")
  obtain r2 ev2 where s2: "set_led io2 0 self = (r2, ev2)"
    by (cases "set_led io2 0 self")
  have w1: "writes ev1 = [Write p ''255'' io1]"
    using set_led_writes [of io1 255 self] s1 assms(2) by (simp add: str_int_255)
  have w2: "writes ev2 = [Write p ''0'' io2]"
    using set_led_writes [of io2 0 self] s2 assms(2) by (simp add: str_int_0)
  have r1: "swallowed io1 \<Longrightarrow> r1 = Inr PyNone"
    using set_led_result [of io1 255 self] s1 by simp
  show ?thesis
    using assms(1) r1
    by (auto simp: open_door_admitted s1 s2 w1 w2 writes_append writes_simps
        split: option.splits sum.splits)
qed

theorem open_door_two_writes_witness:
  "\<not> door_lock idle_door \<and> led_path idle_door = Some led_file \<and>
   fst (open_door cfg3 None None (Some (OSError ''I/O error'')) idle_door) = Inr PyNone \<and>
   writes (snd (snd (open_door cfg3 None None (Some (OSError ''I/O error'')) idle_door))) =
     [Write led_file ''255'' None, Write led_file ''0'' (Some (OSError ''I/O error''))] \<and>
   swallowed None \<and>
   fst (open_door cfg3 None (Some KeyboardInterrupt) None idle_door) = Inl KeyboardInterrupt \<and>
   writes (snd (snd (open_door cfg3 None (Some KeyboardInterrupt) None idle_door))) =
     [Write led_file ''255'' None]"
proof -
  have idle: "\<not> door_lock idle_door" and path: "led_path idle_door = Some led_file"
    by (simp_all add: idle_door_def)
  have res: "fst (open_door cfg3 None None (Some (OSError ''I/O error'')) idle_door) = Inr PyNone"
    by (simp add: open_door_def open_body_def set_led_def time_sleep_def idle_door_def Let_def)
  have sw: "swallowed None"
    by (simp add: swallowed_def)
  show ?thesis
    using idle path res sw
      open_door_two_writes [OF idle path, of cfg3 None None "Some (OSError ''I/O error'')"]
      open_door_two_writes [OF idle path, of cfg3 None "Some KeyboardInterrupt" None]
    by simp
qed

text \<open>C5, as the claim states it, fails: an admitted call whose sleep raises has
  performed the write of 255 only, not two writes.\<close>

theorem open_door_one_write_counterexample:
  "\<not> door_lock idle_door \<and> led_path idle_door = Some led_file \<and>
   fst (open_door cfg3 None (Some KeyboardInterrupt) None idle_door) = Inl KeyboardInterrupt \<and>
   writes (snd (snd (open_door cfg3 None (Some KeyboardInterrupt) None idle_door))) =
     [Write led_file ''255'' None] \<and>
   length (writes (snd (snd (open_door cfg3 None (Some KeyboardInterrupt) None idle_door)))) \<noteq> 2"
  by (simp add: open_door_def open_body_def set_led_def time_sleep_def idle_door_def Let_def
      writes_simps str_int_255)

text \<open>
  C7. Without a device \<^verbatim>\<open>_set_led\<close> returns and writes nothing. With a device it
  performs one write operation and no second one, whatever the first one raised: of the
  text \<^verbatim>\<open>str(c)\<close>, a string of decimal digits that denotes \<open>c\<close>, where \<open>c\<close> is the
  level brought into 0 to 255, and is the level itself when that lies in the range.
\<close>

theorem set_led_clamps_and_writes_once:
  "(led_path self = None \<longrightarrow>
      fst (set_led io b self) = Inr PyNone \<and> writes (snd (set_led io b self)) = []) \<and>
   (\<forall>p. led_path self = Some p \<longrightarrow>
      (\<exists>c. c = max 0 (min 255 b) \<and> 0 \<le> c \<and> c \<le> 255 \<and> (0 \<le> b \<and> b \<le> 255 \<longrightarrow> c = b) \<and>
           int (decimal_value (str_int c)) = c \<and>
           writes (snd (set_led io b self)) = [Write p (str_int c) io]))"
  by (simp add: set_led_result set_led_writes decimal_value_str_int)

theorem set_led_clamps_and_writes_once_witness:
  "led_path (idle_door\<lparr>led_path := None\<rparr>) = None \<and>
   fst (set_led None 128 (idle_door\<lparr>led_path := None\<rparr>)) = Inr PyNone \<and>
   writes (snd (set_led None 128 (idle_door\<lparr>led_path := None\<rparr>))) = [] \<and>
   led_path idle_door = Some led_file \<and>
   writes (snd (set_led None 300 idle_door)) = [Write led_file ''255'' None] \<and>
   writes (snd (set_led None (- 7) idle_door)) = [Write led_file ''0'' None] \<and>
   writes (snd (set_led (Some (PermissionError ''denied'')) 128 idle_door)) =
     [Write led_file ''128'' (Some (PermissionError ''denied''))]"
proof -
  have s128: "str_int 128 = ''128''"
    by (simp add: str_int_def str_nat.simps digit_char_def)
  have path: "led_path idle_door = Some led_file"
    by (simp add: idle_door_def)
  show ?thesis
    using path
      set_led_clamps_and_writes_once [of "idle_door\<lparr>led_path := None\<rparr>" None 128]
      set_led_clamps_and_writes_once [of idle_door None 300]
      set_led_clamps_and_writes_once [of idle_door None "- 7"]
      set_led_clamps_and_writes_once [of idle_door "Some (PermissionError ''denied'')" 128]
    by (simp add: s128 str_int_255 str_int_0)
qed

text \<open>
  C8. When the two writes raise nothing but what \<^verbatim>\<open>_set_led\<close> catches (a
  \<^verbatim>\<open>PermissionError\<close>, any other \<^verbatim>\<open>Exception\<close>), \<^verbatim>\<open>_set_led\<close> returns, and
  \<^verbatim>\<open>open\<close> goes on as if the writes had succeeded: same result, same controller
  afterwards, same writes and sleeps in the same order. If the sleep raises nothing
  either, \<^verbatim>\<open>open\<close> returns, and an admitted call has slept once for the configured time
  and left the status false and the lock free.
\<close>

theorem device_errors_swallowed:
  assumes "swallowed io1" and "swallowed io2"
  shows "fst (set_led io1 b self) = Inr PyNone \<and>
         fst (open_door cfg io1 sf io2 self) = fst (open_door cfg None sf None self) \<and>
         fst (snd (open_door cfg io1 sf io2 self)) = fst (snd (open_door cfg None sf None self)) \<and>
         effects (snd (snd (open_door cfg io1 sf io2 self))) =
           effects (snd (snd (open_door cfg None sf None self))) \<and>
         (sf = None \<longrightarrow> fst (open_door cfg io1 sf io2 self) = Inr PyNone) \<and>
         (sf = None \<and> \<not> door_lock self \<longrightarrow>
            fst (snd (open_door cfg io1 sf io2 self)) = self\<lparr>status := False\<rparr> \<and>
            sleeps (snd (snd (open_door cfg io1 sf io2 self))) =
              [Sleep (DOOR_OPEN_DURATION cfg) None])"
proof (cases "door_lock self")
  case True
  then show ?thesis
    using assms by (simp add: open_door_def set_led_result)
next
  case False
  obtain r1 ev1 where s1: "set_led io1 255 self = (r1, ev1)"
    by (cases "set_led io1 255 self")
  obtain r2 ev2 where s2: "set_led io2 0 self = (r2, ev2)"
    by (cases "set_led io2 0 self")
  obtain r3 ev3 where s3: "set_led None 255 self = (r3, ev3)"
    by (cases "set_led None 255 self")
  obtain r4 ev4 where s4: "set_led None 0 self = (r4, ev4)"
    by (cases "set_led None 0 self")
  have r: "r1 = Inr PyNone" "r2 = Inr PyNone" "r3 = Inr PyNone" "r4 = Inr PyNone"
    using set_led_result [of io1 255 self] set_led_result [of io2 0 self]
      set_led_result [of None 255 self] set_led_result [of None 0 self] s1 s2 s3 s4 assms
    by (simp_all add: swallowed_def)
  have e: "effects ev1 = effects ev3" "effects ev2 = effects ev4"
    using set_led_effects [of io1 255 self] set_led_effects [of io2 0 self]
      set_led_effects [of None 255 self] set_led_effects [of None 0 self] s1 s2 s3 s4
    by simp_all
  have sl: "sleeps ev1 = []" "sleeps ev2 = []"
    using set_led_sleeps [of io1 255 self] set_led_sleeps [of io2 0 self] s1 s2 by simp_all
  have "fst (set_led io1 b self) = Inr PyNone"
    using assms by (simp add: set_led_result)
  then show ?thesis
    using False
    by (simp add: open_door_admitted s1 s2 s3 s4 r e sl effects_simps sleeps_append sleeps_simps
        split: option.splits)
qed

theorem device_errors_swallowed_witness:
  "swallowed (Some (PermissionError ''denied'')) \<and> swallowed (Some (OSError ''I/O error'')) \<and>
   fst (set_led (Some (PermissionError ''denied'')) 255 idle_door) = Inr PyNone \<and>
   open_door cfg3 (Some (PermissionError ''denied'')) None (Some (OSError ''I/O error'')) idle_door =
     (Inr PyNone, idle_door,
      [Log INFO ''[DoorController] Open the door (LED ON)'',
       Write led_file ''255'' (Some (PermissionError ''denied'')),
       Log ERROR (''[DoorController] Permission denied: '' @ led_file @
                  ''. Run with sudo or configure udev rules.''),
       Sleep 3 None,
       Log INFO ''[DoorController] Close the door (LED OFF)'',
       Write led_file ''0'' (Some (OSError ''I/O error'')),
       Log ERROR ''[DoorController] Failed to control LED: I/O error'']) \<and>
   effects (snd (snd (open_door cfg3 (Some (PermissionError ''denied'')) None
       (Some (OSError ''I/O error'')) idle_door))) =
     effects (snd (snd (open_door cfg3 None None None idle_door)))"
proof -
  have sw: "swallowed (Some (PermissionError ''denied''))" "swallowed (Some (OSError ''I/O error''))"
    by (simp_all add: swallowed_def)
  have run: "open_door cfg3 (Some (PermissionError ''denied'')) None (Some (OSError ''I/O error''))
       idle_door =
     (Inr PyNone, idle_door,
      [Log INFO ''[DoorController] Open the door (LED ON)'',
       Write led_file ''255'' (Some (PermissionError ''denied'')),
       Log ERROR (''[DoorController] Permission denied: '' @ led_file @
                  ''. Run with sudo or configure udev rules.''),
       Sleep 3 None,
       Log INFO ''[DoorController] Close the door (LED OFF)'',
       Write led_file ''0'' (Some (OSError ''I/O error'')),
       Log ERROR ''[DoorController] Failed to control LED: I/O error''])"
    by (simp add: open_door_def open_body_def set_led_def time_sleep_def idle_door_def cfg3_def
        Let_def str_int_255 str_int_0)
  show ?thesis
    using sw run
      device_errors_swallowed [OF sw, of 255 idle_door cfg3 None]
    by simp
qed

section \<open>The claims about construction and the singleton\<close>

lemma init_fresh:
  "init cfg ex io st None =
    (if truthy (LED_SYSFS_PATH cfg) then
       (let p = path_str (the (LED_SYSFS_PATH cfg));
            d = \<lparr>status = st, door_lock = False, led_path = Some p\<rparr> in
        case ex p of
          Inl e \<Rightarrow> (Inl e, d, [])
        | Inr True \<Rightarrow>
            (case set_led io 0 d of
               (Inl e, ev1) \<Rightarrow>
                 (Inl e, d, Log INFO (''[DoorController] LED device found: '' @ p) # ev1)
             | (Inr v, ev1) \<Rightarrow>
                 (Inr PyNone, d,
                  Log INFO (''[DoorController] LED device found: '' @ p) # ev1 @
                    [Log INFO ''[DoorController] LED turned off on initialization'']))
        | Inr False \<Rightarrow>
            (Inr PyNone, d\<lparr>led_path := None\<rparr>,
             [Log WARNING (''[DoorController] LED device not found: '' @ p)]))
     else (Inr PyNone, \<lparr>status = st, door_lock = False, led_path = None\<rparr>,
           [Log INFO ''[DoorController] LED control disabled (LED_SYSFS_PATH not configured)'']))"
  by (cases "LED_SYSFS_PATH cfg")
     (auto simp: init_def Let_def split: prod.splits sum.splits bool.splits)

lemma init_status:
  "status (fst (snd (init cfg ex io st None))) = st"
  by (simp add: init_fresh Let_def split: prod.splits sum.splits bool.splits)

text \<open>What \<^verbatim>\<open>__init__\<close> does in the cases where \<^verbatim>\<open>Path.exists\<close> answers, and where it
  raises.\<close>

lemma init_when_exists_answers:
  "(\<forall>q. LED_SYSFS_PATH cfg = Some q \<and> q \<noteq> [] \<and> ex (path_str q) = Inr True \<longrightarrow>
      led_path (fst (snd (init cfg ex io st None))) = Some (path_str q) \<and>
      writes (snd (snd (init cfg ex io st None))) = [Write (path_str q) ''0'' io] \<and>
      (swallowed io \<longrightarrow> fst (init cfg ex io st None) = Inr PyNone)) \<and>
   (\<forall>q. LED_SYSFS_PATH cfg = Some q \<and> q \<noteq> [] \<and> ex (path_str q) = Inr False \<longrightarrow>
      init cfg ex io st None =
        (Inr PyNone, \<lparr>status = st, door_lock = False, led_path = None\<rparr>,
         [Log WARNING (''[DoorController] LED device not found: '' @ path_str q)])) \<and>
   (\<not> truthy (LED_SYSFS_PATH cfg) \<longrightarrow>
      fst (init cfg ex io st None) = Inr PyNone \<and>
      led_path (fst (snd (init cfg ex io st None))) = None \<and>
      writes (snd (snd (init cfg ex io st None))) = [])"
proof -
  have A: "led_path (fst (snd (init cfg ex io st None))) = Some (path_str q) \<and>
      writes (snd (snd (init cfg ex io st None))) = [Write (path_str q) ''0'' io] \<and>
      (swallowed io \<longrightarrow> fst (init cfg ex io st None) = Inr PyNone)"
    if h: "LED_SYSFS_PATH cfg = Some q \<and> q \<noteq> [] \<and> ex (path_str q) = Inr True" for q
  proof -
    let ?d = "\<lparr>status = st, door_lock = False, led_path = Some (path_str q)\<rparr>"
    obtain r ev where s: "set_led io 0 ?d = (r, ev)"
      by (cases "set_led io 0 ?d")
    have r: "r = (if swallowed io then Inr PyNone else Inl (the io))"
      using set_led_result [of io 0 ?d] s by simp
    have w: "writes ev = [Write (path_str q) ''0'' io]"
      using set_led_writes [of io 0 ?d] s by (simp add: str_int_0)
    show ?thesis
      using h by (auto simp: init_fresh Let_def s r w writes_simps writes_append split: sum.splits)
  qed
  have B: "init cfg ex io st None =
        (Inr PyNone, \<lparr>status = st, door_lock = False, led_path = None\<rparr>,
         [Log WARNING (''[DoorController] LED device not found: '' @ path_str q)])"
    if "LED_SYSFS_PATH cfg = Some q \<and> q \<noteq> [] \<and> ex (path_str q) = Inr False" for q
    using that by (simp add: init_fresh Let_def)
  have C: "\<not> truthy (LED_SYSFS_PATH cfg) \<Longrightarrow>
      fst (init cfg ex io st None) = Inr PyNone \<and>
      led_path (fst (snd (init cfg ex io st None))) = None \<and>
      writes (snd (snd (init cfg ex io st None))) = []"
    by (simp add: init_fresh writes_simps)
  show ?thesis using A B C by blast
qed

lemma init_when_exists_raises:
  "LED_SYSFS_PATH cfg = Some q \<Longrightarrow> q \<noteq> [] \<Longrightarrow> ex (path_str q) = Inl e \<Longrightarrow>
     init cfg ex io st None =
       (Inl e, \<lparr>status = st, door_lock = False, led_path = Some (path_str q)\<rparr>, [])"
  by (simp add: init_fresh Let_def)

text \<open>
  C9 fails on the code. With \<^verbatim>\<open>LED_SYSFS_PATH\<close> the path of a brightness file in a
  directory that the process may not search, \<^verbatim>\<open>Path.exists\<close> raises the
  \<^verbatim>\<open>PermissionError\<close> of \<^verbatim>\<open>stat\<close>, \<^verbatim>\<open>__init__\<close> has no handler, and the constructor and
  \<^verbatim>\<open>get_door_controller\<close> raise: no warning is logged, no instance is bound, where the
  claim has the instance degrade to simulated mode without failing.
\<close>

theorem init_raises_when_exists_raises:
  "LED_SYSFS_PATH cfg3 = Some led_file \<and>
   unsearchable led_file = Inl (PermissionError ''[Errno 13] Permission denied'') \<and>
   init cfg3 unsearchable None False None =
     (Inl (PermissionError ''[Errno 13] Permission denied''), idle_door, []) \<and>
   get_door_controller cfg3 unsearchable None fresh_process =
     (Inl (PermissionError ''[Errno 13] Permission denied''), fresh_process, [])"
proof -
  have i: "init cfg3 unsearchable None False None =
     (Inl (PermissionError ''[Errno 13] Permission denied''), idle_door, [])"
    by (simp add: init_def cfg3_def unsearchable_def idle_door_def Let_def path_str_led_file)
      (simp add: led_file_def)
  have g: "get_door_controller cfg3 unsearchable None fresh_process =
     (Inl (PermissionError ''[Errno 13] Permission denied''), fresh_process, [])"
    by (simp add: get_door_controller_def fresh_process_def i)
  show ?thesis
    using i g by (simp add: cfg3_def unsearchable_def)
qed



section \<open>Interleaved calls\<close>

lemma count_update:
  "i < length xs \<Longrightarrow>
     count P (xs[i := y]) + (if P (xs ! i) then 1 else 0) = count P xs + (if P y then 1 else 0)"
proof (induction xs arbitrary: i)
  case Nil
  then show ?case by simp
next
  case (Cons x xs)
  show ?case
  proof (cases i)
    case 0
    then show ?thesis by (simp add: count_def)
  next
    case (Suc j)
    with Cons.prems have "j < length xs" by simp
    from Cons.IH [OF this] Suc show ?thesis by (simp add: count_def)
  qed
qed

lemma count_replicate: "count P (replicate n x) = (if P x then n else 0)"
  by (induction n) (simp_all add: count_def)

lemma count_split:
  "\<forall>p \<in> set xs. (P p \<or> Q p) \<and> \<not> (P p \<and> Q p) \<Longrightarrow> count P xs + count Q xs = length xs"
  by (induction xs) (auto simp: count_def)

lemma count_zero: "\<forall>p \<in> set xs. \<not> P p \<Longrightarrow> count P xs = 0"
  by (induction xs) (auto simp: count_def)

lemma count_pos: "0 < count P xs \<Longrightarrow> \<exists>p \<in> set xs. P p"
  by (induction xs) (auto simp: count_def split: if_splits)

text \<open>What one statement does to the thread's position and to the controller.\<close>

lemma thread_step_finally:
  "thread_step cfg r (AtFinally pe) d =
     ((case pe of None \<Rightarrow> Returned | Some e \<Rightarrow> Raised e), d\<lparr>door_lock := False\<rparr>, [])"
  by (cases pe) simp_all

lemma thread_step_fallible:
  "thread_step cfg r AtAssert d =
     ((case fst (set_led r 255 d) of Inl e \<Rightarrow> AtFinally (Some e) | Inr v \<Rightarrow> AtSetTrue), d,
      Log INFO ''[DoorController] Open the door (LED ON)'' # snd (set_led r 255 d))"
  "thread_step cfg r AtSleep d =
     ((case r of Some e \<Rightarrow> AtFinally (Some e) | None \<Rightarrow> AtDeassert), d,
      [Sleep (DOOR_OPEN_DURATION cfg) r])"
  "thread_step cfg r AtDeassert d =
     ((case fst (set_led r 0 d) of Inl e \<Rightarrow> AtFinally (Some e) | Inr v \<Rightarrow> AtSetFalse), d,
      Log INFO ''[DoorController] Close the door (LED OFF)'' # snd (set_led r 0 d))"
  by (simp_all add: Let_def time_sleep_def split: prod.splits sum.splits option.splits)

lemmas thread_step_alt = thread_step_fallible thread_step_finally

lemma thread_step_lock:
  assumes "thread_step cfg r q d = (q', d', evs)"
  shows "door_lock d' =
           (case q of AtAcquire \<Rightarrow> True | AtFinally pe \<Rightarrow> False | _ \<Rightarrow> door_lock d)"
  using assms
  by (cases q) (auto simp: thread_step_alt simp del: thread_step.simps(2,4,5,7,8)
      split: sum.splits option.splits if_splits)

lemma thread_step_in_flight:
  assumes "thread_step cfg r q d = (q', d', evs)"
  shows "in_flight q' =
           (case q of AtAcquire \<Rightarrow> \<not> door_lock d \<and> r = None | AtFinally pe \<Rightarrow> False
            | _ \<Rightarrow> in_flight q)"
  using assms
  by (cases q) (auto simp: thread_step_alt simp del: thread_step.simps(2,4,5,7,8)
      split: sum.splits option.splits if_splits)

lemma thread_step_interrupted:
  assumes "thread_step cfg r q d = (q', d', evs)"
  shows "interrupted q' = (interrupted q \<or> (q = AtAcquire \<and> \<not> door_lock d \<and> r \<noteq> None))"
  using assms
  by (cases q) (auto simp: thread_step_alt simp del: thread_step.simps(2,4,5,7,8)
      split: sum.splits option.splits if_splits)

lemma thread_step_rejected:
  assumes "thread_step cfg r q d = (q', d', evs)"
  shows "rejected q' = (rejected q \<or> (q = AtAcquire \<and> door_lock d))"
  using assms
  by (cases q) (auto simp: thread_step_alt rejected_def simp del: thread_step.simps(2,4,5,7,8)
      split: sum.splits option.splits if_splits)

lemma thread_step_finished:
  assumes "thread_step cfg r q d = (q', d', evs)"
  shows "finished_cycle q' =
           (finished_cycle q \<or> (\<exists>pe. q = AtFinally pe) \<or>
            (q = AtAcquire \<and> \<not> door_lock d \<and> r \<noteq> None))"
  using assms
  by (cases q) (auto simp: thread_step_alt simp del: thread_step.simps(2,4,5,7,8)
      split: sum.splits option.splits if_splits)

lemma thread_step_status:
  assumes "thread_step cfg r q d = (q', d', evs)"
  shows "status d' = (if q = AtSetTrue then True else if q = AtSetFalse then False else status d)"
  using assms
  by (cases q) (auto simp: thread_step_alt simp del: thread_step.simps(2,4,5,7,8)
      split: sum.splits option.splits if_splits)

lemma set_led_raises:
  "fst (set_led io b self) = Inl e \<Longrightarrow> \<not> swallowed io"
  by (simp add: set_led_result split: if_splits)

lemma set_led_0_late_fault:
  assumes "fst (set_led io 0 self) = Inl e"
  shows "\<exists>ev \<in> set (snd (set_led io 0 self)). late_fault ev"
proof -
  have ns: "\<not> swallowed io"
    using assms by (rule set_led_raises)
  then obtain e' where io: "io = Some e'" and ne: "\<not> is_Exception e'"
    by (cases io) (auto simp: swallowed_def)
  obtain p where p: "led_path self = Some p"
    using assms by (cases "led_path self") (simp_all add: set_led_def)
  have "\<not> is_PermissionError e'"
    using ne PermissionError_is_Exception by blast
  then have "snd (set_led io 0 self) = [Write p ''0'' io]"
    using io ne p by (simp add: set_led_def str_int_0)
  then show ?thesis
    using ns by simp
qed

lemma thread_step_holding:
  assumes "thread_step cfg r q d = (q', d', evs)"
  shows "holding q' \<or> (\<exists>ev \<in> set evs. late_fault ev) \<or> \<not> holding q \<or> q = AtSetFalse"
    and "\<not> holding q \<Longrightarrow> holding q' = (q = AtSetTrue)"
proof -
  show "holding q' \<or> (\<exists>ev \<in> set evs. late_fault ev) \<or> \<not> holding q \<or> q = AtSetFalse"
  proof (cases q)
    case AtSleep
    then show ?thesis
      using assms by (cases r) (auto simp: thread_step_alt simp del: thread_step.simps(2,4,5,7,8))
  next
    case AtDeassert
    show ?thesis
    proof (cases "fst (set_led r 0 d)")
      case (Inl e)
      then have "\<exists>ev \<in> set (snd (set_led r 0 d)). late_fault ev"
        by (rule set_led_0_late_fault)
      then show ?thesis
        using assms AtDeassert Inl
        by (auto simp: thread_step_alt simp del: thread_step.simps(2,4,5,7,8))
    next
      case (Inr v)
      then show ?thesis
        using assms AtDeassert
        by (auto simp: thread_step_alt simp del: thread_step.simps(2,4,5,7,8))
    qed
  qed simp_all
  show "holding q' = (q = AtSetTrue)" if "\<not> holding q"
    using assms that
    by (cases q) (auto simp: thread_step_alt simp del: thread_step.simps(2,4,5,7,8)
        split: sum.splits option.splits if_splits)
qed

subsection \<open>One scheduled statement\<close>

lemma sched_step_out: "\<not> i < length (pcs s) \<Longrightarrow> sched_step cfg s (i, r) = s"
  by (simp add: sched_step_def)

lemma sched_step_in:
  assumes "i < length (pcs s)" and "thread_step cfg r (pcs s ! i) (gate s) = (q, d, evs)"
  shows "sched_step cfg s (i, r) = \<lparr>pcs = (pcs s)[i := q], gate = d, trace = trace s @ evs\<rparr>"
  using assms by (simp add: sched_step_def)

lemma length_pcs_sched_step [simp]: "length (pcs (sched_step cfg s x)) = length (pcs s)"
  by (cases x) (simp add: sched_step_def split: prod.splits)

lemma length_pcs_run [simp]: "length (pcs (run cfg sch s)) = length (pcs s)"
  unfolding run_def by (induction sch arbitrary: s) simp_all

lemma run_snoc: "run cfg (sch @ [x]) s = sched_step cfg (run cfg sch s) x"
  by (simp add: run_def)

lemma run_Nil: "run cfg [] s = s"
  by (simp add: run_def)

lemma lock_inv_step:
  assumes "lock_inv s"
  shows "lock_inv (sched_step cfg s (i, r))"
proof (cases "i < length (pcs s)")
  case False
  then show ?thesis using assms by (simp add: sched_step_out)
next
  case True
  obtain q d evs where st: "thread_step cfg r (pcs s ! i) (gate s) = (q, d, evs)"
    by (cases "thread_step cfg r (pcs s ! i) (gate s)")
  have c: "count in_flight ((pcs s)[i := q]) + (if in_flight (pcs s ! i) then 1 else 0) =
           count in_flight (pcs s) + (if in_flight q then 1 else 0)"
    using count_update [OF True] .
  show ?thesis
    using assms c thread_step_lock [OF st] thread_step_in_flight [OF st]
    by (cases "pcs s ! i") (auto simp: lock_inv_def sched_step_in [OF True st] split: if_splits)
qed

lemma held_inv_step:
  assumes "held_inv s"
  shows "held_inv (sched_step cfg s (i, r))"
proof (cases "i < length (pcs s)")
  case False
  then show ?thesis using assms by (simp add: sched_step_out)
next
  case True
  obtain q d evs where st: "thread_step cfg r (pcs s ! i) (gate s) = (q, d, evs)"
    by (cases "thread_step cfg r (pcs s ! i) (gate s)")
  have c1: "count in_flight ((pcs s)[i := q]) + (if in_flight (pcs s ! i) then 1 else 0) =
           count in_flight (pcs s) + (if in_flight q then 1 else 0)"
    using count_update [OF True] .
  have c2: "count interrupted ((pcs s)[i := q]) + (if interrupted (pcs s ! i) then 1 else 0) =
           count interrupted (pcs s) + (if interrupted q then 1 else 0)"
    using count_update [OF True] .
  show ?thesis
    using assms c1 c2 thread_step_lock [OF st] thread_step_in_flight [OF st]
      thread_step_interrupted [OF st]
    by (cases "pcs s ! i") (auto simp: held_inv_def sched_step_in [OF True st] split: if_splits)
qed

lemma busy_inv_step:
  assumes "busy_inv s"
  shows "busy_inv (sched_step cfg s (i, r))"
proof (cases "i < length (pcs s)")
  case False
  then show ?thesis using assms by (simp add: sched_step_out)
next
  case True
  obtain q d evs where st: "thread_step cfg r (pcs s ! i) (gate s) = (q, d, evs)"
    by (cases "thread_step cfg r (pcs s ! i) (gate s)")
  have c1: "count rejected ((pcs s)[i := q]) + (if rejected (pcs s ! i) then 1 else 0) =
           count rejected (pcs s) + (if rejected q then 1 else 0)"
    using count_update [OF True] .
  have c2: "count finished_cycle ((pcs s)[i := q]) + (if finished_cycle (pcs s ! i) then 1 else 0) =
           count finished_cycle (pcs s) + (if finished_cycle q then 1 else 0)"
    using count_update [OF True] .
  show ?thesis
    using assms c1 c2 thread_step_lock [OF st] thread_step_rejected [OF st]
      thread_step_finished [OF st]
    by (cases "pcs s ! i")
       (auto simp: busy_inv_def rejected_def sched_step_in [OF True st] split: if_splits)
qed

lemma status_inv_step:
  assumes "status_inv s"
  shows "status_inv (sched_step cfg s (i, r))"
proof (cases "i < length (pcs s)")
  case False
  then show ?thesis using assms by (simp add: sched_step_out)
next
  case True
  obtain q d evs where st: "thread_step cfg r (pcs s ! i) (gate s) = (q, d, evs)"
    by (cases "thread_step cfg r (pcs s ! i) (gate s)")
  have c: "count holding ((pcs s)[i := q]) + (if holding (pcs s ! i) then 1 else 0) =
           count holding (pcs s) + (if holding q then 1 else 0)"
    using count_update [OF True] .
  have eq: "sched_step cfg s (i, r) = \<lparr>pcs = (pcs s)[i := q], gate = d, trace = trace s @ evs\<rparr>"
    using sched_step_in [OF True st] .
  show ?thesis
  proof (cases "holding (pcs s ! i)")
    case False
    then show ?thesis
      using assms c thread_step_status [OF st] thread_step_holding(2) [OF st]
      by (auto simp: status_inv_def eq split: if_splits)
  next
    case True
    then show ?thesis
      using assms c thread_step_status [OF st] thread_step_holding(1) [OF st]
      by (auto simp: status_inv_def eq split: if_splits)
  qed
qed

lemma run_invariant:
  assumes "\<And>s i r. I s \<Longrightarrow> I (sched_step cfg s (i, r))" and "I s"
  shows "I (run cfg sch s)"
proof (induction sch rule: rev_induct)
  case Nil
  then show ?case using assms(2) by (simp add: run_Nil)
next
  case (snoc x sch)
  then show ?case using assms(1) by (cases x) (simp add: run_snoc)
qed

lemma init_system_invs:
  "lock_inv (init_system n d)"
  "busy_inv (init_system n d)"
  "\<not> status d \<Longrightarrow> status_inv (init_system n d)"
  "\<not> door_lock d \<Longrightarrow> held_inv (init_system n d)"
  by (simp_all add: lock_inv_def busy_inv_def status_inv_def held_inv_def init_system_def
      count_replicate rejected_def)


lemma count_nth_pos: "i < length xs \<Longrightarrow> P (xs ! i) \<Longrightarrow> 0 < count P xs"
  using count_update [of i xs P "xs ! i"] count_pos [of P xs]
  by (induction xs arbitrary: i) (auto simp: count_def nth_Cons split: nat.splits)

lemma count_two:
  "i < length xs \<Longrightarrow> j < length xs \<Longrightarrow> i \<noteq> j \<Longrightarrow> P (xs ! i) \<Longrightarrow> P (xs ! j) \<Longrightarrow> 2 \<le> count P xs"
proof (induction xs arbitrary: i j)
  case Nil
  then show ?case by simp
next
  case (Cons x xs)
  show ?case
  proof (cases i)
    case 0
    then obtain j' where j: "j = Suc j'" using Cons.prems(3) by (cases j) auto
    then have "j' < length xs" "P (xs ! j')" using Cons.prems by auto
    then have "0 < count P xs" by (rule count_nth_pos)
    moreover have "P x" using 0 Cons.prems(4) by simp
    ultimately show ?thesis by (simp add: count_def Suc_le_eq)
  next
    case (Suc i')
    show ?thesis
    proof (cases j)
      case 0
      have "i' < length xs" "P (xs ! i')" using Suc Cons.prems by auto
      then have "0 < count P xs" by (rule count_nth_pos)
      moreover have "P x" using 0 Cons.prems(5) by simp
      ultimately show ?thesis by (simp add: count_def Suc_le_eq)
    next
      case (Suc j')
      with \<open>i = Suc i'\<close> Cons.prems
      have "i' < length xs" "j' < length xs" "i' \<noteq> j'" "P (xs ! i')" "P (xs ! j')" by auto
      from Cons.IH [OF this] show ?thesis by (simp add: count_def)
    qed
  qed
qed

lemma interrupted_finished: "interrupted q \<Longrightarrow> finished_cycle q"
  by (cases q) simp_all

lemma pc_attempted: "q \<noteq> AtAcquire \<Longrightarrow> \<not> finished_cycle q \<Longrightarrow>
    (in_flight q \<or> rejected q) \<and> \<not> (in_flight q \<and> rejected q)"
  by (cases q) (simp_all add: rejected_def)

lemma winner_completes:
  assumes "i < length (pcs s)" and "pcs s ! i = AtAssert" and "swallowed io1" and "swallowed io2"
  shows "pcs (run cfg [(i, io1), (i, r1), (i, None), (i, io2), (i, r2), (i, r3)] s) =
           (pcs s)[i := Returned] \<and>
         gate (run cfg [(i, io1), (i, r1), (i, None), (i, io2), (i, r2), (i, r3)] s) =
           (gate s)\<lparr>status := False, door_lock := False\<rparr> \<and>
         effects (trace (run cfg [(i, io1), (i, r1), (i, None), (i, io2), (i, r2), (i, r3)] s)) =
           effects (trace s) @
           (case led_path (gate s) of None \<Rightarrow> [] | Some p \<Rightarrow> [Write p ''255'' None]) @
           [Sleep (DOOR_OPEN_DURATION cfg) None] @
           (case led_path (gate s) of None \<Rightarrow> [] | Some p \<Rightarrow> [Write p ''0'' None])"
proof -
  have r: "fst (set_led io1 255 (gate s)) = Inr PyNone" "fst (set_led io2 0 (gate s)) = Inr PyNone"
    using assms(3,4) by (simp_all add: set_led_result)
  show ?thesis
    using assms(1,2)
    by (simp add: run_def sched_step_def thread_step_alt r set_led_status_irrelevant
        set_led_effects effects_simps str_int_255 str_int_0 split: prod.splits option.splits
        del: thread_step.simps(2,4,5,7,8))
qed

section \<open>The claims about concurrent calls and the status\<close>



lemma three_race_run:
  "run cfg3 three_race (init_system 3 idle_door) =
     \<lparr>pcs = [ReturnedBusy, AtAssert, ReturnedBusy],
      gate = idle_door\<lparr>door_lock := True\<rparr>,
      trace = [Log INFO ''[DoorController] Door is busy'',
               Log INFO ''[DoorController] Door is busy'']\<rparr>"
  by (simp add: run_def three_race_def init_system_def sched_step_def idle_door_def
      numeral_3_eq_3)



lemma try_block_releases:
  assumes "i < length (pcs s)" and "pcs s ! i = AtAssert"
  shows "(pcs (run cfg [(i, r1), (i, r2), (i, r3), (i, r4), (i, r5), (i, r6)] s) ! i = Returned \<or>
          (\<exists>e. pcs (run cfg [(i, r1), (i, r2), (i, r3), (i, r4), (i, r5), (i, r6)] s) ! i = Raised e)) \<and>
         \<not> door_lock (gate (run cfg [(i, r1), (i, r2), (i, r3), (i, r4), (i, r5), (i, r6)] s))"
proof -
  obtain a1 ev1 where s1: "set_led r1 255 (gate s) = (a1, ev1)"
    by (cases "set_led r1 255 (gate s)")
  obtain a4 ev4 where s4: "set_led r4 0 (gate s) = (a4, ev4)"
    by (cases "set_led r4 0 (gate s)")
  show ?thesis
    using assms
    by (cases a1; cases r3; cases a4)
       (simp_all add: run_def sched_step_def s1 s4 set_led_status_irrelevant time_sleep_def Let_def)
qed


lemma two_callers_run:
  "run cfg3 [(0, None), (1, None)] (init_system 2 idle_door) =
     \<lparr>pcs = [AtAssert, ReturnedBusy], gate = idle_door\<lparr>door_lock := True\<rparr>,
      trace = [Log INFO ''[DoorController] Door is busy'']\<rparr>"
  by (simp add: run_def init_system_def sched_step_def idle_door_def numeral_2_eq_2)



lemma set_led_255_no_late_fault:
  "\<not> (\<exists>ev \<in> set (snd (set_led io 255 self)). late_fault ev)"
  by (cases io) (auto simp: set_led_def Let_def str_int_255 split: option.splits)

lemma set_led_0_swallowed_no_late_fault:
  "fst (set_led io 0 self) = Inr v \<Longrightarrow> \<not> (\<exists>ev \<in> set (snd (set_led io 0 self)). late_fault ev)"
  by (cases io) (auto simp: set_led_def Let_def str_int_0 swallowed_def split: option.splits if_splits)




text \<open>The two models agree: one thread that runs alone through its statements, with no
  exception at line 67, does what \<^verbatim>\<open>open\<close> as a function does.\<close>

lemma open_door_as_steps:
  "run cfg [(0, None), (0, io1), (0, r2), (0, sf), (0, io2), (0, r5), (0, r6)] (init_system 1 d) =
     (case open_door cfg io1 sf io2 d of
        (res, d', evs) \<Rightarrow>
          \<lparr>pcs = [case res of Inl e \<Rightarrow> Raised e
                            | Inr v \<Rightarrow> if door_lock d then ReturnedBusy else Returned],
           gate = d', trace = evs\<rparr>)"
proof (cases "door_lock d")
  case True
  then show ?thesis
    by (simp add: run_def init_system_def sched_step_def open_door_def)
next
  case False
  obtain a1 ev1 where s1: "set_led io1 255 d = (a1, ev1)"
    by (cases "set_led io1 255 d")
  obtain a2 ev2 where s2: "set_led io2 0 d = (a2, ev2)"
    by (cases "set_led io2 0 d")
  have eq: "d\<lparr>door_lock := True, door_lock := False\<rparr> = d"
    "d\<lparr>door_lock := True, status := True, door_lock := False\<rparr> = d\<lparr>status := True\<rparr>"
    "d\<lparr>door_lock := True, status := True, status := False, door_lock := False\<rparr> = d\<lparr>status := False\<rparr>"
    using False by (cases d; simp)+
  show ?thesis
    using False
    by (cases a1; cases sf; cases a2)
       (simp_all add: run_def init_system_def sched_step_def open_door_admitted s1 s2
         set_led_status_irrelevant time_sleep_def Let_def eq)
qed

end
